theory Spec2Isabelle
  imports Complex_Main "HOL-Library.Multiset"
begin

section \<open>Strings\<close>

text \<open>
  A TypeScript string is a sequence of UTF-16 code units. The model uses \<open>string\<close>
  (a list of \<open>char\<close>), each \<open>char\<close> standing for the code unit with the same number,
  so the strings covered are those whose code units are below 256 (ASCII and Latin-1).
  On these, \<open>toLowerCase\<close> works one code unit at a time and \<open>length\<close> counts
  code units, as in the source.
\<close>

definition isWhiteSpace :: "char \<Rightarrow> bool" where
  \<comment> \<open>What \<open>trim\<close> strips and the class \<open>\s\<close> matches: TAB, LF, VT, FF, CR, SP, NBSP.\<close>
  "isWhiteSpace c = ((of_char c :: nat) \<in> {9, 10, 11, 12, 13, 32, 160})"

definition toLowerChar :: "char \<Rightarrow> char" where
  \<comment> \<open>A-Z, and the Latin-1 capitals 192-222 without the multiplication sign 215.\<close>
  "toLowerChar c =
     (let n = (of_char c :: nat)
      in if (65 \<le> n \<and> n \<le> 90) \<or> (192 \<le> n \<and> n \<le> 222 \<and> n \<noteq> 215)
         then char_of (n + 32) else c)"

definition toLowerCase :: "string \<Rightarrow> string" where
  "toLowerCase s = map toLowerChar s"

definition trim :: "string \<Rightarrow> string" where
  "trim s = rev (dropWhile isWhiteSpace (rev (dropWhile isWhiteSpace s)))"

definition includesStr :: "string \<Rightarrow> string \<Rightarrow> bool" where
  \<comment> \<open>\<open>s.includes(t)\<close>: \<open>t\<close> occurs in \<open>s\<close> at some position.\<close>
  "includesStr s t = list_ex (\<lambda>i. take (length t) (drop i s) = t) [0..<Suc (length s)]"

definition charAt :: "string \<Rightarrow> nat \<Rightarrow> string" where
  \<comment> \<open>\<open>s.charAt(k)\<close>: a string of one code unit, the empty string out of range.\<close>
  "charAt s k = (if k < length s then [s ! k] else [])"

section \<open>TextNormalizer\<close>

definition isPunctuation :: "char \<Rightarrow> bool" where
  \<comment> \<open>The character class \<open>[.,!?;:]\<close>.\<close>
  "isPunctuation c = (c \<in> set ''.,!?;:'')"

definition removePunctuation :: "string \<Rightarrow> string" where
  \<comment> \<open>\<open>.replace(/[.,!?;:]/g, "")\<close>\<close>
  "removePunctuation s = filter (\<lambda>c. \<not> isPunctuation c) s"

function collapseWhitespace :: "string \<Rightarrow> string" where
  \<comment> \<open>\<open>.replace(/\s+/g, " ")\<close>: every maximal run of white space becomes one space.\<close>
  "collapseWhitespace [] = []"
| "collapseWhitespace (c # cs) =
     (if isWhiteSpace c then CHR '' '' # collapseWhitespace (dropWhile isWhiteSpace cs)
      else c # collapseWhitespace cs)"
  by pat_completeness auto
termination
  by (relation "measure length") (auto simp: length_dropWhile_le less_Suc_eq_le)

definition normalizeText :: "string \<Rightarrow> string" where
  "normalizeText text = collapseWhitespace (removePunctuation (trim (toLowerCase text)))"

definition isExactMatch :: "string \<Rightarrow> string \<Rightarrow> bool" where
  "isExactMatch text1 text2 = (normalizeText text1 = normalizeText text2)"

definition containsText :: "string \<Rightarrow> string \<Rightarrow> bool" where
  "containsText text searchTerm =
     (let normalizedText = normalizeText text;
          normalizedTerm = normalizeText searchTerm
      in includesStr normalizedText normalizedTerm \<or> includesStr normalizedTerm normalizedText)"

definition isEmptyText :: "string \<Rightarrow> bool" where
  "isEmptyText text = (normalizeText text = [])"

section \<open>Failures and numbers\<close>

text \<open>
  The source raises no exception of its own; what can throw is a property read or write
  on \<open>undefined\<close> (a missing matrix row, \<open>matches[0]\<close> of an empty array), which is a
  \<open>TypeError\<close>. A number is a rational or \<open>NaN\<close>: the similarity values are of the form
  \<open>1 - d / n\<close> for naturals \<open>d \<le> n\<close>, taken exactly, and the literal \<open>0.6\<close> is
  \<open>3 / 5\<close>.
\<close>

datatype failure = TypeError

datatype number = Num rat | NaN

definition andThen :: "failure + 'a \<Rightarrow> ('a \<Rightarrow> failure + 'b) \<Rightarrow> failure + 'b" where
  "andThen r f = (case r of Inl e \<Rightarrow> Inl e | Inr a \<Rightarrow> f a)"

fun forEach :: "nat list \<Rightarrow> (nat \<Rightarrow> 's \<Rightarrow> failure + 's) \<Rightarrow> 's \<Rightarrow> failure + 's" where
  \<comment> \<open>A counting \<open>for\<close> loop over the given indices, stopping at the first throw.\<close>
  "forEach [] body s = Inr s"
| "forEach (k # ks) body s = (case body k s of Inl e \<Rightarrow> Inl e | Inr s' \<Rightarrow> forEach ks body s')"

fun numGreater :: "number \<Rightarrow> number \<Rightarrow> bool" where
  \<comment> \<open>\<open>a > b\<close> on numbers: false as soon as one side is \<open>NaN\<close>.\<close>
  "numGreater (Num a) (Num b) = (b < a)"
| "numGreater _ _ = False"

fun numMinus :: "number \<Rightarrow> number \<Rightarrow> number" where
  "numMinus (Num a) (Num b) = Num (a - b)"
| "numMinus _ _ = NaN"

section \<open>SimilarityCalculator\<close>

text \<open>
  The matrix is an array of arrays that grows by assignment. A row maps an index to the
  natural stored there, \<open>None\<close> where the cell holds no number (never written, or written
  with \<open>undefined\<close> or \<open>NaN\<close>: all of them end as \<open>NaN\<close> in the arithmetic of this
  function). The matrix maps an index to its row, \<open>None\<close> where there is no row, and
  then reading or writing a cell of it throws.
\<close>

type_synonym cells = "nat \<Rightarrow> nat option"
type_synonym matrix = "nat \<Rightarrow> cells option"

definition getCell :: "matrix \<Rightarrow> nat \<Rightarrow> nat \<Rightarrow> failure + nat option" where
  \<comment> \<open>\<open>matrix[i][j]\<close> read\<close>
  "getCell m i j = (case m i of None \<Rightarrow> Inl TypeError | Some r \<Rightarrow> Inr (r j))"

definition setCell :: "matrix \<Rightarrow> nat \<Rightarrow> nat \<Rightarrow> nat option \<Rightarrow> failure + matrix" where
  \<comment> \<open>\<open>matrix[i][j] = v\<close>\<close>
  "setCell m i j v = (case m i of None \<Rightarrow> Inl TypeError | Some r \<Rightarrow> Inr (m(i \<mapsto> r(j := v))))"

definition plusOne :: "nat option \<Rightarrow> nat option" where
  "plusOne v = map_option Suc v"

fun mathMin :: "nat option \<Rightarrow> nat option \<Rightarrow> nat option \<Rightarrow> nat option" where
  \<comment> \<open>\<open>Math.min(a, b, c)\<close>: \<open>NaN\<close> if an argument is.\<close>
  "mathMin (Some a) (Some b) (Some c) = Some (min a (min b c))"
| "mathMin _ _ _ = None"

definition initRow :: "nat \<Rightarrow> matrix \<Rightarrow> failure + matrix" where
  \<comment> \<open>\<open>matrix[i] = [i]\<close>\<close>
  "initRow i m = Inr (m(i \<mapsto> Map.empty(0 \<mapsto> i)))"

definition initColumn :: "nat \<Rightarrow> matrix \<Rightarrow> failure + matrix" where
  \<comment> \<open>\<open>matrix[0][j] = j\<close>\<close>
  "initColumn j m = setCell m 0 j (Some j)"

definition fillCell :: "string \<Rightarrow> string \<Rightarrow> nat \<Rightarrow> nat \<Rightarrow> matrix \<Rightarrow> failure + matrix" where
  \<comment> \<open>The body of the inner loop, at \<open>i \<ge> 1\<close> and \<open>j \<ge> 1\<close>.\<close>
  "fillCell str1 str2 i j m =
     (if charAt str2 (i - 1) = charAt str1 (j - 1)
      then andThen (getCell m (i - 1) (j - 1)) (\<lambda>d. setCell m i j d)
      else andThen (getCell m (i - 1) (j - 1)) (\<lambda>sub.
           andThen (getCell m i (j - 1)) (\<lambda>ins.
           andThen (getCell m (i - 1) j) (\<lambda>del.
           setCell m i j (mathMin (plusOne sub) (plusOne ins) (plusOne del))))))"

definition toSimilarity :: "nat option \<Rightarrow> nat \<Rightarrow> number" where
  \<comment> \<open>\<open>1 - distance / maxLen\<close>\<close>
  "toSimilarity d maxLen =
     (case d of None \<Rightarrow> NaN | Some k \<Rightarrow> Num (1 - of_nat k / of_nat maxLen))"

definition calculateSimilarity :: "string \<Rightarrow> string \<Rightarrow> failure + number" where
  "calculateSimilarity str1 str2 =
     (let len1 = length str1; len2 = length str2
      in if len1 = 0 \<and> len2 = 0 then Inr (Num 1)
         else if len1 = 0 \<or> len2 = 0 then Inr (Num 0)
         else andThen (forEach [0..<Suc len2] initRow Map.empty) (\<lambda>m0.
              andThen (forEach [0..<Suc len1] initColumn m0) (\<lambda>m1.
              andThen (forEach [1..<Suc len2]
                         (\<lambda>i. forEach [1..<Suc len1] (fillCell str1 str2 i)) m1) (\<lambda>m2.
              andThen (getCell m2 len2 len1) (\<lambda>d.
              Inr (toSimilarity d (max len1 len2)))))))"

fun mostSimilarLoop ::
  "string \<Rightarrow> string list \<Rightarrow> number \<Rightarrow> string option \<Rightarrow> failure + string option" where
  \<comment> \<open>The \<open>for ... of\<close> loop, on the candidates left, with \<open>maxSimilarity\<close> and \<open>mostSimilar\<close>.\<close>
  "mostSimilarLoop target [] maxSimilarity mostSimilar = Inr mostSimilar"
| "mostSimilarLoop target (candidate # rest) maxSimilarity mostSimilar =
     andThen (calculateSimilarity target candidate) (\<lambda>similarity.
       if numGreater similarity maxSimilarity
       then mostSimilarLoop target rest similarity (Some candidate)
       else mostSimilarLoop target rest maxSimilarity mostSimilar)"

definition findMostSimilar :: "string \<Rightarrow> string list \<Rightarrow> failure + string option" where
  \<comment> \<open>\<open>None\<close> is the source's \<open>null\<close>.\<close>
  "findMostSimilar target candidates =
     (if length candidates = 0 then Inr None
      else mostSimilarLoop target candidates (Num 0) None)"

section \<open>Types\<close>

text \<open>
  Of a \<open>Translation\<close> the engine reads \<open>english\<close>, \<open>klingon\<close> and \<open>phonetic\<close>; \<open>id\<close>
  and \<open>category\<close> are kept to tell entries apart, the part of speech and the examples
  are left out. An optional field is an \<open>option\<close>. Of a \<open>LanguageOption\<close> the engine reads
  \<open>code\<close>; the flag and the direction are display data and left out.
\<close>

record Translation =
  id :: string
  english :: string
  klingon :: string
  phonetic :: "string option"
  category :: "string option"

record TranslationResult =
  input :: string
  output' :: string
  phoneticGuide :: "string option"
  confidence :: number
  suggestions :: "Translation list"

record LanguageOption =
  code :: string
  name :: string

record TranslationOptions =
  text' :: string
  fromLanguage :: string
  toLanguage :: string

datatype FieldName = English | Klingon

fun getField :: "FieldName \<Rightarrow> Translation \<Rightarrow> string" where
  \<comment> \<open>\<open>translation[sourceField]\<close>\<close>
  "getField English t = english t"
| "getField Klingon t = klingon t"

section \<open>DictionaryMatcher\<close>

record MatchResult =
  translation :: Translation
  similarity :: number

definition calculateMatchSimilarity :: "string \<Rightarrow> string \<Rightarrow> failure + number" where
  "calculateMatchSimilarity normalizedInput sourceText =
     (let normalizedSource = normalizeText sourceText
      in if isExactMatch normalizedInput normalizedSource then Inr (Num 1)
         else if containsText normalizedInput normalizedSource then Inr (Num (9 / 10))
         else calculateSimilarity normalizedInput normalizedSource)"

fun collectMatches ::
  "string \<Rightarrow> FieldName \<Rightarrow> Translation list \<Rightarrow> MatchResult list \<Rightarrow> failure + MatchResult list" where
  \<comment> \<open>The loop over the dictionary, on the entries left, with the matches pushed so far.\<close>
  "collectMatches normalizedInput sourceField [] matches = Inr matches"
| "collectMatches normalizedInput sourceField (t # rest) matches =
     (let sourceText = getField sourceField t
      in if sourceText = [] then collectMatches normalizedInput sourceField rest matches
         else andThen (calculateMatchSimilarity normalizedInput sourceText) (\<lambda>sim.
                if numGreater sim (Num (3 / 5))
                then collectMatches normalizedInput sourceField rest
                       (matches @ [\<lparr>translation = t, similarity = sim\<rparr>])
                else collectMatches normalizedInput sourceField rest matches))"

text \<open>
  \<open>Array.prototype.sort\<close> is stable and calls the comparator on pairs of elements; a
  comparator result of \<open>NaN\<close> counts as \<open>0\<close>. It is modelled by insertion from the
  right, which puts an element before the first one it does not have to follow.
\<close>

definition compareMatches :: "MatchResult \<Rightarrow> MatchResult \<Rightarrow> rat" where
  \<comment> \<open>\<open>(a, b) => b.similarity - a.similarity\<close>\<close>
  "compareMatches a b =
     (case numMinus (similarity b) (similarity a) of Num v \<Rightarrow> v | NaN \<Rightarrow> 0)"

fun insertMatch :: "MatchResult \<Rightarrow> MatchResult list \<Rightarrow> MatchResult list" where
  "insertMatch x [] = [x]"
| "insertMatch x (y # ys) =
     (if compareMatches x y \<le> 0 then x # y # ys else y # insertMatch x ys)"

definition sortMatches :: "MatchResult list \<Rightarrow> MatchResult list" where
  "sortMatches ms = foldr insertMatch ms []"

definition findMatches ::
  "string \<Rightarrow> Translation list \<Rightarrow> FieldName \<Rightarrow> failure + Translation list" where
  "findMatches input_text dictionary sourceField =
     (if trim input_text = [] then Inr []
      else andThen (collectMatches (normalizeText input_text) sourceField dictionary []) (\<lambda>matches.
           Inr (map translation (sortMatches matches))))"

section \<open>TranslationProcessor\<close>

definition createEmptyResult :: "string \<Rightarrow> TranslationResult" where
  "createEmptyResult input_text =
     \<lparr>input = input_text, output' = [], phoneticGuide = None, confidence = Num 0, suggestions = []\<rparr>"

definition createUnknownResult :: "string \<Rightarrow> TranslationResult" where
  "createUnknownResult input_text =
     \<lparr>input = input_text, output' = ''['' @ input_text @ '']'', phoneticGuide = None,
      confidence = Num 0, suggestions = []\<rparr>"

definition slice :: "nat \<Rightarrow> nat \<Rightarrow> 'a list \<Rightarrow> 'a list" where
  \<comment> \<open>\<open>xs.slice(a, b)\<close> for \<open>a \<le> b\<close>\<close>
  "slice a b xs = take (b - a) (drop a xs)"

definition processTranslation ::
  "string \<Rightarrow> Translation list \<Rightarrow> LanguageOption \<Rightarrow> LanguageOption \<Rightarrow> failure + TranslationResult" where
  "processTranslation input_text matches sourceLanguage targetLanguage =
     (if isEmptyText input_text then Inr (createEmptyResult input_text)
      else if length matches = 0 then Inr (createUnknownResult input_text)
      else case matches of
             [] \<Rightarrow> Inl TypeError
           | bestMatch # _ \<Rightarrow>
               (let targetField = (if code sourceLanguage = ''en'' then Klingon else English);
                    sourceField = (if code sourceLanguage = ''en'' then English else Klingon)
                in andThen (calculateSimilarity (normalizeText input_text)
                              (normalizeText (getField sourceField bestMatch))) (\<lambda>conf.
                   Inr \<lparr>input = input_text,
                        output' = getField targetField bestMatch,
                        phoneticGuide = (if targetField = Klingon then phonetic bestMatch else None),
                        confidence = conf,
                        suggestions = slice 1 4 matches\<rparr>)))"

section \<open>LanguageConfig and translationService\<close>

definition languageOptions :: "LanguageOption list" where
  "languageOptions =
     [\<lparr>code = ''en'', name = ''English''\<rparr>, \<lparr>code = ''tlh'', name = ''Klingon (tlhIngan Hol)''\<rparr>]"

definition isLanguageSupported :: "string \<Rightarrow> bool" where
  "isLanguageSupported c = list_ex (\<lambda>lang. code lang = c) languageOptions"

definition createErrorResult :: "string \<Rightarrow> string \<Rightarrow> TranslationResult" where
  "createErrorResult message input_text =
     \<lparr>input = input_text, output' = [], phoneticGuide = None, confidence = Num 0, suggestions = []\<rparr>"

text \<open>
  The dictionary is the module constant \<open>klingonDictionary\<close>, whose file is not part of
  the sources at hand: it is the first parameter of \<open>translateText\<close>.
\<close>

definition translateText :: "Translation list \<Rightarrow> TranslationOptions \<Rightarrow> failure + TranslationResult" where
  "translateText klingonDictionary options =
     (let txt0 = text' options; from = fromLanguage options; to = toLanguage options
      in if isEmptyText txt0 then Inr (createErrorResult ''Empty input text'' txt0)
         else if \<not> isLanguageSupported from \<or> \<not> isLanguageSupported to
         then Inr (createErrorResult ''Unsupported language pair'' txt0)
         else (let sourceField = (if toLowerCase from = ''klingon'' then Klingon else English)
               in andThen (findMatches txt0 klingonDictionary sourceField) (\<lambda>matches.
                  (let sourceLang = \<lparr>code = (if from = ''klingon'' then ''tlh'' else ''en''),
                                     name = (if from = ''klingon'' then ''Klingon'' else ''English'')\<rparr>;
                       targetLang = \<lparr>code = (if to = ''klingon'' then ''tlh'' else ''en''),
                                     name = (if to = ''klingon'' then ''Klingon'' else ''English'')\<rparr>
                   in processTranslation txt0 matches sourceLang targetLang))))"

section \<open>Auxiliary notions for the proofs\<close>

text \<open>
  A string is single-spaced when its only white space is the space character and no two
  white-space characters are adjacent: the shape \<open>collapseWhitespace\<close> produces.
\<close>

definition singleSpaced :: "string \<Rightarrow> bool" where
  "singleSpaced s = ((\<forall>c \<in> set s. isWhiteSpace c \<longrightarrow> c = CHR '' '') \<and>
                     successively (\<lambda>a b. \<not> (isWhiteSpace a \<and> isWhiteSpace b)) s)"

text \<open>
  The recurrence the matrix loops compute: \<open>levCell str1 str2 i j\<close> is what cell
  \<open>matrix[i][j]\<close> holds once written, the edit distance between the first \<open>i\<close>
  characters of \<open>str2\<close> and the first \<open>j\<close> characters of \<open>str1\<close>.
\<close>

fun levCell :: "string \<Rightarrow> string \<Rightarrow> nat \<Rightarrow> nat \<Rightarrow> nat" where
  "levCell str1 str2 0 j = j"
| "levCell str1 str2 (Suc i) 0 = Suc i"
| "levCell str1 str2 (Suc i) (Suc j) =
     (if charAt str2 i = charAt str1 j then levCell str1 str2 i j
      else min (levCell str1 str2 i j + 1)
             (min (levCell str1 str2 (Suc i) j + 1) (levCell str1 str2 i (Suc j) + 1)))"

definition cellOf :: "matrix \<Rightarrow> nat \<Rightarrow> nat \<Rightarrow> nat option" where
  "cellOf m i j = (case m i of None \<Rightarrow> None | Some r \<Rightarrow> r j)"

text \<open>
  The loop invariant: every row up to \<open>length str2\<close> exists, and every cell in the
  region \<open>P\<close> written so far holds its \<open>levCell\<close> value.
\<close>

definition agrees :: "string \<Rightarrow> string \<Rightarrow> (nat \<Rightarrow> nat \<Rightarrow> bool) \<Rightarrow> matrix \<Rightarrow> bool" where
  "agrees str1 str2 P m =
     ((\<forall>i \<le> length str2. m i \<noteq> None) \<and>
      (\<forall>i j. P i j \<longrightarrow> cellOf m i j = Some (levCell str1 str2 i j)))"

text \<open>
  The similarity \<open>findMatches\<close> assigns to an entry, as a rational, and the test that
  decides whether the entry is pushed.
\<close>

definition simValue :: "number \<Rightarrow> rat" where
  "simValue n = (case n of Num r \<Rightarrow> r | NaN \<Rightarrow> 0)"

definition assigned :: "string \<Rightarrow> FieldName \<Rightarrow> Translation \<Rightarrow> rat" where
  "assigned normalizedInput sourceField t =
     (case calculateMatchSimilarity normalizedInput (getField sourceField t) of
        Inr n \<Rightarrow> simValue n | Inl e \<Rightarrow> 0)"

definition included :: "string \<Rightarrow> FieldName \<Rightarrow> Translation \<Rightarrow> bool" where
  "included normalizedInput sourceField t =
     (getField sourceField t \<noteq> [] \<and> 3 / 5 < assigned normalizedInput sourceField t)"

text \<open>Entries and requests for the examples: an entry without the optional fields.\<close>

abbreviation entry :: "string \<Rightarrow> string \<Rightarrow> string \<Rightarrow> Translation" where
  "entry i e k \<equiv> \<lparr>id = i, english = e, klingon = k, phonetic = None, category = None\<rparr>"

abbreviation request :: "string \<Rightarrow> string \<Rightarrow> string \<Rightarrow> TranslationOptions" where
  "request t f g \<equiv> \<lparr>text' = t, fromLanguage = f, toLanguage = g\<rparr>"

section \<open>Normalization: what a second pass does\<close>


lemma toLowerChar_idem: "toLowerChar (toLowerChar c) = toLowerChar c"
proof -
  have "(of_char c :: nat) < 256" by simp
  then show ?thesis
    by (auto simp: toLowerChar_def Let_def)
qed

lemma toLowerChar_space: "toLowerChar (CHR '' '') = CHR '' ''"
  by (simp add: toLowerChar_def)

lemma toLowerCase_idem: "toLowerCase (toLowerCase s) = toLowerCase s"
  by (simp add: toLowerCase_def toLowerChar_idem)

lemma isWhiteSpace_space: "isWhiteSpace (CHR '' '')"
  by (simp add: isWhiteSpace_def)

lemma not_punct_space: "\<not> isPunctuation (CHR '' '')"
  by (simp add: isPunctuation_def)

lemma set_collapse: "set (collapseWhitespace s) \<subseteq> insert (CHR '' '') (set s)"
proof (induction s rule: collapseWhitespace.induct)
  case 1
  then show ?case by simp
next
  case (2 c cs)
  have "set (dropWhile isWhiteSpace cs) \<subseteq> set cs"
    by (simp add: set_dropWhileD subsetI)
  with 2 show ?case by auto
qed

lemma collapse_hd_nonws:
  "s \<noteq> [] \<Longrightarrow> \<not> isWhiteSpace (hd s) \<Longrightarrow>
   collapseWhitespace s \<noteq> [] \<and> hd (collapseWhitespace s) = hd s"
  by (cases s) auto

lemma ws_collapse: "c \<in> set (collapseWhitespace s) \<Longrightarrow> isWhiteSpace c \<Longrightarrow> c = CHR '' ''"
proof (induction s rule: collapseWhitespace.induct)
  case 1
  then show ?case by simp
next
  case (2 c' cs)
  then show ?case by (auto split: if_splits)
qed

lemma succ_collapse:
  "successively (\<lambda>a b. \<not> (isWhiteSpace a \<and> isWhiteSpace b)) (collapseWhitespace s)"
proof (induction s rule: collapseWhitespace.induct)
  case 1
  then show ?case by simp
next
  case (2 c cs)
  show ?case
  proof (cases "isWhiteSpace c")
    case True
    let ?d = "dropWhile isWhiteSpace cs"
    have "?d = [] \<or> \<not> isWhiteSpace (hd ?d)"
      using hd_dropWhile by blast
    then have "collapseWhitespace ?d = [] \<or> \<not> isWhiteSpace (hd (collapseWhitespace ?d))"
    proof
      assume "?d = []"
      then have "collapseWhitespace ?d = []" by (simp only: collapseWhitespace.simps)
      then show ?thesis by blast
    next
      assume n: "\<not> isWhiteSpace (hd ?d)"
      show ?thesis
      proof (cases "?d = []")
        case True
        then have "collapseWhitespace ?d = []" by (simp only: collapseWhitespace.simps)
        then show ?thesis by blast
      next
        case False
        from collapse_hd_nonws[OF False n] n show ?thesis by simp
      qed
    qed
    with True 2 show ?thesis by (auto simp: successively_Cons)
  next
    case False
    with 2 show ?thesis by (auto simp: successively_Cons)
  qed
qed

lemma singleSpaced_collapse: "singleSpaced (collapseWhitespace s)"
  unfolding singleSpaced_def using ws_collapse succ_collapse by blast

lemma collapse_fix: "singleSpaced s \<Longrightarrow> collapseWhitespace s = s"
proof (induction s rule: collapseWhitespace.induct)
  case 1
  then show ?case by simp
next
  case (2 c cs)
  from "2.prems" have tl: "singleSpaced cs"
    by (auto simp: singleSpaced_def successively_Cons)
  show ?case
  proof (cases "isWhiteSpace c")
    case True
    with "2.prems" have c: "c = CHR '' ''" by (simp add: singleSpaced_def)
    from True "2.prems" have "cs = [] \<or> \<not> isWhiteSpace (hd cs)"
      by (auto simp: singleSpaced_def successively_Cons)
    then have d: "dropWhile isWhiteSpace cs = cs" by (cases cs) auto
    from "2.IH"(1)[OF True] tl d have "collapseWhitespace cs = cs" by simp
    with True c d show ?thesis by simp
  next
    case False
    with "2.IH"(2) tl show ?thesis by simp
  qed
qed

lemma singleSpaced_dropWhile: "singleSpaced s \<Longrightarrow> singleSpaced (dropWhile P s)"
proof -
  assume a: "singleSpaced s"
  let ?Q = "\<lambda>a b. \<not> (isWhiteSpace a \<and> isWhiteSpace b)"
  from a have "successively ?Q s" unfolding singleSpaced_def by blast
  then have "successively ?Q (takeWhile P s @ dropWhile P s)"
    by (simp only: takeWhile_dropWhile_id)
  then have "successively ?Q (dropWhile P s)"
    unfolding successively_append_iff by blast
  moreover have "\<And>c. c \<in> set (dropWhile P s) \<Longrightarrow> c \<in> set s"
    by (rule set_dropWhileD)
  ultimately show ?thesis using a unfolding singleSpaced_def by blast
qed

lemma singleSpaced_rev: "singleSpaced s \<Longrightarrow> singleSpaced (rev s)"
proof -
  assume a: "singleSpaced s"
  let ?Q = "\<lambda>a b. \<not> (isWhiteSpace a \<and> isWhiteSpace b)"
  from a have "successively ?Q s" unfolding singleSpaced_def by blast
  then have "successively (\<lambda>x y. ?Q y x) s"
    by (rule successively_mono) blast
  then have "successively ?Q (rev s)"
    by (simp only: successively_rev)
  then show ?thesis using a unfolding singleSpaced_def by simp
qed

lemma singleSpaced_trim: "singleSpaced s \<Longrightarrow> singleSpaced (trim s)"
proof -
  assume "singleSpaced s"
  then have "singleSpaced (dropWhile isWhiteSpace s)" by (rule singleSpaced_dropWhile)
  then have "singleSpaced (rev (dropWhile isWhiteSpace s))" by (rule singleSpaced_rev)
  then have "singleSpaced (dropWhile isWhiteSpace (rev (dropWhile isWhiteSpace s)))"
    by (rule singleSpaced_dropWhile)
  then have "singleSpaced (rev (dropWhile isWhiteSpace (rev (dropWhile isWhiteSpace s))))"
    by (rule singleSpaced_rev)
  then show ?thesis by (simp only: trim_def)
qed

lemma set_trim: "c \<in> set (trim s) \<Longrightarrow> c \<in> set s"
proof -
  assume "c \<in> set (trim s)"
  then have "c \<in> set (dropWhile isWhiteSpace (rev (dropWhile isWhiteSpace s)))"
    by (simp add: trim_def)
  then have "c \<in> set (rev (dropWhile isWhiteSpace s))" by (rule set_dropWhileD)
  then have "c \<in> set (dropWhile isWhiteSpace s)" by simp
  then show ?thesis by (rule set_dropWhileD)
qed

lemma normalizeText_chars:
  assumes "c \<in> set (normalizeText s)"
  shows "toLowerChar c = c" and "\<not> isPunctuation c"
proof -
  let ?u = "removePunctuation (trim (toLowerCase s))"
  from assms have c: "c = CHR '' '' \<or> c \<in> set ?u"
    using set_collapse[of ?u] by (auto simp: normalizeText_def)
  have u1: "\<And>d. d \<in> set ?u \<Longrightarrow> \<not> isPunctuation d"
    by (simp add: removePunctuation_def)
  have "set ?u \<subseteq> set (toLowerCase s)"
    using set_trim[of _ "toLowerCase s"] by (auto simp: removePunctuation_def)
  then have u2: "\<And>d. d \<in> set ?u \<Longrightarrow> toLowerChar d = d"
    by (auto simp: toLowerCase_def toLowerChar_idem)
  from c u2 show "toLowerChar c = c" using toLowerChar_space by auto
  from c u1 show "\<not> isPunctuation c" using not_punct_space by auto
qed

lemma normalizeText_twice: "normalizeText (normalizeText s) = trim (normalizeText s)"
proof -
  let ?v = "normalizeText s"
  have low: "toLowerCase ?v = ?v"
    unfolding toLowerCase_def by (rule map_idI) (rule normalizeText_chars(1))
  have "\<And>c. c \<in> set (trim ?v) \<Longrightarrow> \<not> isPunctuation c"
    using set_trim[of _ ?v] normalizeText_chars(2) by blast
  then have pun: "removePunctuation (trim ?v) = trim ?v"
    by (simp add: removePunctuation_def)
  have "singleSpaced ?v" by (simp add: normalizeText_def singleSpaced_collapse)
  then have "collapseWhitespace (trim ?v) = trim ?v"
    by (intro collapse_fix singleSpaced_trim)
  then show ?thesis
    using low pun by (simp add: normalizeText_def[of ?v])
qed


lemma last_dropWhile_nonempty: "dropWhile P xs \<noteq> [] \<Longrightarrow> last (dropWhile P xs) = last xs"
proof -
  assume a: "dropWhile P xs \<noteq> []"
  have "last (takeWhile P xs @ dropWhile P xs) = last (dropWhile P xs)"
    using a by (rule last_appendR)
  then show ?thesis by (simp only: takeWhile_dropWhile_id)
qed

lemma trim_ends:
  "trim s = [] \<or> (\<not> isWhiteSpace (hd (trim s)) \<and> \<not> isWhiteSpace (last (trim s)))"
proof (cases "trim s = []")
  case True
  then show ?thesis by blast
next
  case False
  let ?t1 = "dropWhile isWhiteSpace s"
  let ?t2 = "dropWhile isWhiteSpace (rev ?t1)"
  have t: "trim s = rev ?t2" by (simp only: trim_def)
  with False have ne2: "?t2 \<noteq> []" by simp
  then have h2: "\<not> isWhiteSpace (hd ?t2)" by (rule hd_dropWhile)
  have ne1: "?t1 \<noteq> []"
  proof
    assume e: "?t1 = []"
    have "?t2 = []" by (simp only: e rev.simps dropWhile.simps)
    with ne2 show False by contradiction
  qed
  then have h1: "\<not> isWhiteSpace (hd ?t1)" by (rule hd_dropWhile)
  have "last ?t2 = last (rev ?t1)" using ne2 by (rule last_dropWhile_nonempty)
  also have "\<dots> = hd ?t1" using ne1 by (simp add: last_rev)
  finally have l2: "last ?t2 = hd ?t1" .
  have "hd (trim s) = last ?t2" using ne2 t by (simp add: hd_rev)
  moreover have "last (trim s) = hd ?t2" using ne2 t by (simp add: last_rev)
  ultimately show ?thesis using h1 h2 l2 by simp
qed

lemma trim_fix:
  assumes "w = [] \<or> (\<not> isWhiteSpace (hd w) \<and> \<not> isWhiteSpace (last w))"
  shows "trim w = w"
proof (cases "w = []")
  case True
  then show ?thesis by (simp add: trim_def)
next
  case False
  with assms have h: "\<not> isWhiteSpace (hd w)" and l: "\<not> isWhiteSpace (last w)" by auto
  from h False have d1: "dropWhile isWhiteSpace w = w" by (cases w) auto
  from l False have "\<not> isWhiteSpace (hd (rev w))" by (simp add: hd_rev)
  with False have d2: "dropWhile isWhiteSpace (rev w) = rev w" by (cases "rev w") auto
  show ?thesis by (simp add: trim_def d1 d2)
qed

lemma collapse_last_nonws:
  "w \<noteq> [] \<Longrightarrow> \<not> isWhiteSpace (last w) \<Longrightarrow>
   collapseWhitespace w \<noteq> [] \<and> last (collapseWhitespace w) = last w"
proof (induction w rule: collapseWhitespace.induct)
  case 1
  then show ?case by simp
next
  case (2 c cs)
  show ?case
  proof (cases "isWhiteSpace c")
    case True
    with "2.prems" have cs: "cs \<noteq> []" by auto
    with "2.prems" have lc: "\<not> isWhiteSpace (last cs)" by simp
    let ?d = "dropWhile isWhiteSpace cs"
    from cs lc have "last cs \<in> set cs \<and> \<not> isWhiteSpace (last cs)" by simp
    then have d: "?d \<noteq> []" by auto
    then have ld: "last ?d = last cs" by (rule last_dropWhile_nonempty)
    from "2.IH"(1)[OF True d] ld lc
    have "collapseWhitespace ?d \<noteq> [] \<and> last (collapseWhitespace ?d) = last cs" by simp
    with True cs show ?thesis by simp
  next
    case False
    show ?thesis
    proof (cases "cs = []")
      case True
      with False show ?thesis by simp
    next
      case ne: False
      with "2.prems" have "\<not> isWhiteSpace (last cs)" by simp
      from "2.IH"(2)[OF False ne this] False ne show ?thesis by simp
    qed
  qed
qed

lemma toLowerChar_punct: "isPunctuation (toLowerChar c) \<Longrightarrow> isPunctuation c"
proof (cases "toLowerChar c = c")
  case True
  then show "isPunctuation (toLowerChar c) \<Longrightarrow> isPunctuation c" by simp
next
  case False
  let ?n = "of_char c :: nat"
  from False have up: "toLowerChar c = char_of (?n + 32)" and lo: "65 \<le> ?n" and hi: "?n \<le> 222"
    by (auto simp: toLowerChar_def Let_def split: if_splits)
  have small: "\<And>p. isPunctuation p \<Longrightarrow> (of_char p :: nat) < 97"
    by (auto simp: isPunctuation_def)
  have "(of_char (char_of (?n + 32) :: char) :: nat) = (?n + 32) mod 256" by simp
  also have "\<dots> = ?n + 32" using hi by simp
  finally have "\<not> (of_char (toLowerChar c) :: nat) < 97" using lo up by simp
  with small show "isPunctuation (toLowerChar c) \<Longrightarrow> isPunctuation c" by blast
qed

lemma normalizeText_trimmed:
  assumes "\<forall>c \<in> set s. \<not> isPunctuation c"
  shows "trim (normalizeText s) = normalizeText s"
proof -
  let ?t = "trim (toLowerCase s)"
  have "\<And>c. c \<in> set ?t \<Longrightarrow> \<not> isPunctuation c"
  proof -
    fix c assume "c \<in> set ?t"
    then have "c \<in> set (toLowerCase s)" by (rule set_trim)
    then obtain d where "d \<in> set s" and "c = toLowerChar d" by (auto simp: toLowerCase_def)
    with assms show "\<not> isPunctuation c" using toLowerChar_punct by blast
  qed
  then have rp: "removePunctuation ?t = ?t" by (simp add: removePunctuation_def)
  then have n: "normalizeText s = collapseWhitespace ?t" by (simp add: normalizeText_def)
  show ?thesis
  proof (cases "?t = []")
    case True
    with n have "normalizeText s = []" by (simp only: collapseWhitespace.simps)
    then show ?thesis by (simp add: trim_def)
  next
    case False
    with trim_ends[of "toLowerCase s"]
    have h: "\<not> isWhiteSpace (hd ?t)" and l: "\<not> isWhiteSpace (last ?t)" by auto
    from collapse_hd_nonws[OF False h] collapse_last_nonws[OF False l] h l
    have "\<not> isWhiteSpace (hd (collapseWhitespace ?t)) \<and> \<not> isWhiteSpace (last (collapseWhitespace ?t))"
      by simp
    then have "trim (collapseWhitespace ?t) = collapseWhitespace ?t"
      by (intro trim_fix) blast
    with n show ?thesis by simp
  qed
qed

section \<open>The similarity matrix is filled without a throw\<close>


lemma forEach_upt:
  assumes "a \<le> b" and "I a s"
    and "\<And>k t. a \<le> k \<Longrightarrow> k < b \<Longrightarrow> I k t \<Longrightarrow> \<exists>t'. body k t = Inr t' \<and> I (Suc k) t'"
  shows "\<exists>s'. forEach [a..<b] body s = Inr s' \<and> I b s'"
  using assms
proof (induction "b - a" arbitrary: a s)
  case 0
  then show ?case by simp
next
  case (Suc n)
  then have lt: "a < b" by simp
  from Suc.prems(3)[of a s] lt Suc.prems(2)
  obtain t where t: "body a s = Inr t" and It: "I (Suc a) t" by auto
  have "n = b - Suc a" using Suc.hyps(2) by simp
  moreover have "Suc a \<le> b" using lt by simp
  moreover have "\<And>k u. Suc a \<le> k \<Longrightarrow> k < b \<Longrightarrow> I k u \<Longrightarrow> \<exists>t'. body k u = Inr t' \<and> I (Suc k) t'"
    using Suc.prems(3) by simp
  ultimately obtain s' where "forEach [Suc a..<b] body t = Inr s'" and "I b s'"
    using Suc.hyps(1)[of "Suc a" t] It by blast
  then show ?case using lt t by (simp add: upt_conv_Cons)
qed

lemma levCell_col0: "levCell str1 str2 i 0 = i"
  by (cases i) simp_all

lemma levCell_bound: "levCell str1 str2 i j \<le> max i j"
  by (induction str1 str2 i j rule: levCell.induct) auto

lemma agrees_mono:
  "agrees str1 str2 P m \<Longrightarrow> (\<And>a b. Q a b \<Longrightarrow> P a b) \<Longrightarrow> agrees str1 str2 Q m"
  by (simp add: agrees_def)

lemma getCell_agrees:
  "agrees str1 str2 P m \<Longrightarrow> P i j \<Longrightarrow> getCell m i j = Inr (Some (levCell str1 str2 i j))"
  by (auto simp: agrees_def getCell_def cellOf_def split: option.splits)

lemma setCell_agrees:
  assumes "agrees str1 str2 P m" and "i \<le> length str2"
    and "\<And>a b. Q a b \<Longrightarrow> P a b \<or> (a = i \<and> b = j)"
  shows "\<exists>m'. setCell m i j (Some (levCell str1 str2 i j)) = Inr m' \<and> agrees str1 str2 Q m'"
proof -
  from assms(1,2) obtain r where r: "m i = Some r" by (auto simp: agrees_def)
  let ?m = "m(i \<mapsto> r(j := Some (levCell str1 str2 i j)))"
  have "agrees str1 str2 Q ?m"
    unfolding agrees_def
  proof (intro conjI allI impI)
    fix a assume "a \<le> length str2"
    with assms(1) show "?m a \<noteq> None" by (simp add: agrees_def)
  next
    fix a b assume "Q a b"
    then consider "a = i \<and> b = j" | "P a b" "\<not> (a = i \<and> b = j)" using assms(3) by blast
    then show "cellOf ?m a b = Some (levCell str1 str2 a b)"
    proof cases
      case 1
      then show ?thesis by (simp add: cellOf_def)
    next
      case 2
      with assms(1) have "cellOf m a b = Some (levCell str1 str2 a b)" by (simp add: agrees_def)
      with 2 r show ?thesis by (auto simp: cellOf_def)
    qed
  qed
  with r show ?thesis by (simp add: setCell_def)
qed

lemma initRows:
  "\<exists>m. forEach [0..<Suc n] initRow Map.empty = Inr m \<and>
       (\<forall>i. i < Suc n \<longrightarrow> m i = Some (Map.empty(0 \<mapsto> i)))"
proof (rule forEach_upt[where I = "\<lambda>k m. \<forall>i. i < k \<longrightarrow> m i = Some (Map.empty(0 \<mapsto> i))"])
  show "0 \<le> Suc n" by simp
  show "\<forall>i::nat. i < 0 \<longrightarrow> (Map.empty :: matrix) i = Some (Map.empty(0 \<mapsto> i))" by simp
  fix k and t :: matrix
  assume "\<forall>i<k. t i = Some (Map.empty(0 \<mapsto> i))"
  then show "\<exists>t'. initRow k t = Inr t' \<and> (\<forall>i<Suc k. t' i = Some (Map.empty(0 \<mapsto> i)))"
    by (auto simp: initRow_def less_Suc_eq)
qed

lemma initColumns:
  assumes "agrees str1 str2 (\<lambda>a b. a \<le> length str2 \<and> b = 0) m"
  shows "\<exists>m'. forEach [0..<Suc n] initColumn m = Inr m' \<and>
           agrees str1 str2 (\<lambda>a b. a \<le> length str2 \<and> b \<le> n \<and> (b = 0 \<or> a = 0)) m'"
proof -
  let ?I = "\<lambda>k. agrees str1 str2 (\<lambda>a b. a \<le> length str2 \<and> (b = 0 \<or> (a = 0 \<and> b < k)))"
  have "\<exists>m'. forEach [0..<Suc n] initColumn m = Inr m' \<and> ?I (Suc n) m'"
  proof (rule forEach_upt[where I = ?I])
    show "0 \<le> Suc n" by simp
    from assms show "?I 0 m" by (rule agrees_mono) auto
    fix k t assume "?I k t"
    from setCell_agrees[OF this, of 0 "\<lambda>a b. a \<le> length str2 \<and> (b = 0 \<or> (a = 0 \<and> b < Suc k))" k]
    show "\<exists>t'. initColumn k t = Inr t' \<and> ?I (Suc k) t'"
      by (auto simp: initColumn_def less_Suc_eq)
  qed
  then obtain m' where 1: "forEach [0..<Suc n] initColumn m = Inr m'" and 2: "?I (Suc n) m'"
    by blast
  from 2 have "agrees str1 str2 (\<lambda>a b. a \<le> length str2 \<and> b \<le> n \<and> (b = 0 \<or> a = 0)) m'"
    by (rule agrees_mono) auto
  with 1 show ?thesis by blast
qed

lemma fillCell_agrees:
  assumes "agrees str1 str2 P m" and "0 < i" and "i \<le> length str2" and "0 < j"
    and "P (i - 1) (j - 1)" and "P i (j - 1)" and "P (i - 1) j"
    and "\<And>a b. Q a b \<Longrightarrow> P a b \<or> (a = i \<and> b = j)"
  shows "\<exists>m'. fillCell str1 str2 i j m = Inr m' \<and> agrees str1 str2 Q m'"
proof -
  obtain i' j' where i: "i = Suc i'" and j: "j = Suc j'"
    using assms(2,4) by (metis Suc_pred)
  note g1 = getCell_agrees[OF assms(1) assms(5)]
  note g2 = getCell_agrees[OF assms(1) assms(6)]
  note g3 = getCell_agrees[OF assms(1) assms(7)]
  note st = setCell_agrees[OF assms(1) assms(3) assms(8), of Q]
  show ?thesis
  proof (cases "charAt str2 (i - 1) = charAt str1 (j - 1)")
    case True
    then have "levCell str1 str2 i j = levCell str1 str2 (i - 1) (j - 1)" by (simp add: i j)
    with True g1 st show ?thesis by (simp add: fillCell_def andThen_def)
  next
    case False
    then have "mathMin (plusOne (Some (levCell str1 str2 (i - 1) (j - 1))))
                 (plusOne (Some (levCell str1 str2 i (j - 1))))
                 (plusOne (Some (levCell str1 str2 (i - 1) j)))
               = Some (levCell str1 str2 i j)"
      by (simp add: i j plusOne_def)
    with False g1 g2 g3 st show ?thesis by (simp add: fillCell_def andThen_def)
  qed
qed

lemma fillRow:
  assumes "agrees str1 str2 (\<lambda>a b. a \<le> length str2 \<and> b \<le> n \<and> (b = 0 \<or> a < i)) m"
    and "0 < i" and "i \<le> length str2"
  shows "\<exists>m'. forEach [1..<Suc n] (fillCell str1 str2 i) m = Inr m' \<and>
           agrees str1 str2 (\<lambda>a b. a \<le> length str2 \<and> b \<le> n \<and> (b = 0 \<or> a < Suc i)) m'"
proof -
  let ?I = "\<lambda>k. agrees str1 str2
              (\<lambda>a b. a \<le> length str2 \<and> b \<le> n \<and> (b = 0 \<or> a < i \<or> (a = i \<and> b < k)))"
  have "\<exists>m'. forEach [1..<Suc n] (fillCell str1 str2 i) m = Inr m' \<and> ?I (Suc n) m'"
  proof (rule forEach_upt[where I = ?I])
    show "1 \<le> Suc n" by simp
    from assms(1) show "?I 1 m" by (rule agrees_mono) auto
    fix k t assume k: "1 \<le> k" "k < Suc n" and inv: "?I k t"
    show "\<exists>t'. fillCell str1 str2 i k t = Inr t' \<and> ?I (Suc k) t'"
    proof (rule fillCell_agrees[OF inv assms(2) assms(3)])
      show "0 < k" using k by simp
      show "i - 1 \<le> length str2 \<and> k - 1 \<le> n \<and> (k - 1 = 0 \<or> i - 1 < i \<or> i - 1 = i \<and> k - 1 < k)"
        using k assms(2,3) by auto
      show "i \<le> length str2 \<and> k - 1 \<le> n \<and> (k - 1 = 0 \<or> i < i \<or> i = i \<and> k - 1 < k)"
        using k assms(2,3) by auto
      show "i - 1 \<le> length str2 \<and> k \<le> n \<and> (k = 0 \<or> i - 1 < i \<or> i - 1 = i \<and> k < k)"
        using k assms(2,3) by auto
      fix a b
      assume "a \<le> length str2 \<and> b \<le> n \<and> (b = 0 \<or> a < i \<or> a = i \<and> b < Suc k)"
      then show "(a \<le> length str2 \<and> b \<le> n \<and> (b = 0 \<or> a < i \<or> a = i \<and> b < k)) \<or> a = i \<and> b = k"
        by auto
    qed
  qed
  then obtain m' where 1: "forEach [1..<Suc n] (fillCell str1 str2 i) m = Inr m'"
    and 2: "?I (Suc n) m'" by blast
  from 2 have "agrees str1 str2 (\<lambda>a b. a \<le> length str2 \<and> b \<le> n \<and> (b = 0 \<or> a < Suc i)) m'"
    by (rule agrees_mono) auto
  with 1 show ?thesis by blast
qed

lemma fillRows:
  assumes "agrees str1 str2 (\<lambda>a b. a \<le> length str2 \<and> b \<le> n \<and> (b = 0 \<or> a = 0)) m"
  shows "\<exists>m'. forEach [1..<Suc (length str2)] (\<lambda>i. forEach [1..<Suc n] (fillCell str1 str2 i)) m = Inr m' \<and>
           agrees str1 str2 (\<lambda>a b. a \<le> length str2 \<and> b \<le> n) m'"
proof -
  let ?I = "\<lambda>k. agrees str1 str2 (\<lambda>a b. a \<le> length str2 \<and> b \<le> n \<and> (b = 0 \<or> a < k))"
  have "\<exists>m'. forEach [1..<Suc (length str2)] (\<lambda>i. forEach [1..<Suc n] (fillCell str1 str2 i)) m = Inr m'
          \<and> ?I (Suc (length str2)) m'"
  proof (rule forEach_upt[where I = ?I])
    show "1 \<le> Suc (length str2)" by simp
    from assms show "?I 1 m" by (rule agrees_mono) auto
    fix k t assume "1 \<le> k" "k < Suc (length str2)" "?I k t"
    then show "\<exists>t'. forEach [1..<Suc n] (fillCell str1 str2 k) t = Inr t' \<and> ?I (Suc k) t'"
      using fillRow[of str1 str2 n k t] by simp
  qed
  then obtain m' where 1: "forEach [1..<Suc (length str2)] (\<lambda>i. forEach [1..<Suc n] (fillCell str1 str2 i)) m = Inr m'"
    and 2: "?I (Suc (length str2)) m'" by blast
  from 2 have "agrees str1 str2 (\<lambda>a b. a \<le> length str2 \<and> b \<le> n) m'"
    by (rule agrees_mono) auto
  with 1 show ?thesis by blast
qed

lemma calculateSimilarity_value:
  "calculateSimilarity str1 str2 =
     Inr (Num (if str1 = [] \<and> str2 = [] then 1
               else if str1 = [] \<or> str2 = [] then 0
               else 1 - of_nat (levCell str1 str2 (length str2) (length str1))
                        / of_nat (max (length str1) (length str2))))"
proof (cases "str1 = [] \<or> str2 = []")
  case True
  then show ?thesis by (auto simp: calculateSimilarity_def)
next
  case False
  obtain m0 where m0: "forEach [0..<Suc (length str2)] initRow Map.empty = Inr m0"
    and r0: "\<forall>i. i < Suc (length str2) \<longrightarrow> m0 i = Some (Map.empty(0 \<mapsto> i))"
    using initRows[of "length str2"] by blast
  from r0 have "agrees str1 str2 (\<lambda>a b. a \<le> length str2 \<and> b = 0) m0"
    by (auto simp: agrees_def cellOf_def levCell_col0)
  from initColumns[OF this, of "length str1"]
  obtain m1 where m1: "forEach [0..<Suc (length str1)] initColumn m0 = Inr m1"
    and a1: "agrees str1 str2 (\<lambda>a b. a \<le> length str2 \<and> b \<le> length str1 \<and> (b = 0 \<or> a = 0)) m1"
    by blast
  from fillRows[OF a1]
  obtain m2 where m2: "forEach [1..<Suc (length str2)]
                         (\<lambda>i. forEach [1..<Suc (length str1)] (fillCell str1 str2 i)) m1 = Inr m2"
    and a2: "agrees str1 str2 (\<lambda>a b. a \<le> length str2 \<and> b \<le> length str1) m2"
    by blast
  have "getCell m2 (length str2) (length str1)
          = Inr (Some (levCell str1 str2 (length str2) (length str1)))"
    by (rule getCell_agrees[OF a2]) simp
  with False m0 m1 m2 show ?thesis
    by (simp add: calculateSimilarity_def Let_def andThen_def toSimilarity_def del: upt_Suc)
qed

lemma calculateSimilarity_range:
  "\<exists>r. calculateSimilarity str1 str2 = Inr (Num r) \<and> 0 \<le> r \<and> r \<le> 1"
proof (cases "str1 = [] \<or> str2 = []")
  case True
  then show ?thesis by (auto simp: calculateSimilarity_value)
next
  case False
  let ?d = "levCell str1 str2 (length str2) (length str1)"
  let ?n = "max (length str1) (length str2)"
  from False have "0 < length str1" by simp
  then have pos: "0 < ?n" by (simp add: less_max_iff_disj)
  have "?d \<le> ?n" using levCell_bound[of str1 str2 "length str2" "length str1"] by (simp add: max.commute)
  then have "(of_nat ?d :: rat) \<le> of_nat ?n" by (simp only: of_nat_le_iff)
  with pos have "(of_nat ?d :: rat) / of_nat ?n \<le> 1" by (simp add: divide_le_eq_1)
  moreover have "0 \<le> (of_nat ?d :: rat) / of_nat ?n" by simp
  ultimately show ?thesis using False
    by (simp add: calculateSimilarity_value)
qed

section \<open>The matcher: which entries are returned, and in which order\<close>

lemma calculateMatchSimilarity_range:
  "\<exists>r. calculateMatchSimilarity normalizedInput sourceText = Inr (Num r) \<and> 0 \<le> r \<and> r \<le> 1"
proof -
  let ?ns = "normalizeText sourceText"
  consider (exact) "isExactMatch normalizedInput ?ns"
    | (partial) "\<not> isExactMatch normalizedInput ?ns" "containsText normalizedInput ?ns"
    | (fuzzy) "\<not> isExactMatch normalizedInput ?ns" "\<not> containsText normalizedInput ?ns"
    by blast
  then show ?thesis
  proof cases
    case exact
    then have "calculateMatchSimilarity normalizedInput sourceText = Inr (Num 1)"
      by (simp add: calculateMatchSimilarity_def)
    then show ?thesis by simp
  next
    case partial
    then have "calculateMatchSimilarity normalizedInput sourceText = Inr (Num (9 / 10))"
      by (simp add: calculateMatchSimilarity_def)
    moreover have "(0::rat) \<le> 9 / 10" and "(9::rat) / 10 \<le> 1" by simp_all
    ultimately show ?thesis by blast
  next
    case fuzzy
    then have "calculateMatchSimilarity normalizedInput sourceText
                 = calculateSimilarity normalizedInput ?ns"
      by (simp add: calculateMatchSimilarity_def)
    then show ?thesis using calculateSimilarity_range[of normalizedInput ?ns] by simp
  qed
qed

lemma calculateMatchSimilarity_assigned:
  "calculateMatchSimilarity normalizedInput (getField sourceField t)
     = Inr (Num (assigned normalizedInput sourceField t))"
proof -
  obtain r where "calculateMatchSimilarity normalizedInput (getField sourceField t) = Inr (Num r)"
    using calculateMatchSimilarity_range by blast
  then show ?thesis by (simp add: assigned_def simValue_def)
qed

lemma collectMatches_eq:
  "collectMatches ni sf dictionary acc =
     Inr (acc @ map (\<lambda>t. \<lparr>translation = t, similarity = Num (assigned ni sf t)\<rparr>)
                  (filter (included ni sf) dictionary))"
proof (induction dictionary arbitrary: acc)
  case Nil
  then show ?case by simp
next
  case (Cons t rest)
  show ?case
  proof (cases "getField sf t = []")
    case True
    then show ?thesis by (simp add: Cons.IH included_def)
  next
    case False
    then show ?thesis
      by (simp add: Cons.IH included_def andThen_def calculateMatchSimilarity_assigned)
  qed
qed

lemma compareMatches_Num:
  "similarity x = Num a \<Longrightarrow> similarity y = Num b \<Longrightarrow> compareMatches x y = b - a"
  by (simp add: compareMatches_def)

lemma insertMatch_insort_key:
  assumes "\<exists>r. similarity x = Num r" and "\<forall>m \<in> set ys. \<exists>r. similarity m = Num r"
  shows "insertMatch x ys = insort_key (\<lambda>m. - simValue (similarity m)) x ys"
  using assms(2)
proof (induction ys)
  case Nil
  then show ?case by simp
next
  case (Cons y ys)
  from assms(1) obtain a where a: "similarity x = Num a" by blast
  from Cons.prems obtain b where b: "similarity y = Num b" by auto
  have "(compareMatches x y \<le> 0) = (- simValue (similarity x) \<le> - simValue (similarity y))"
    by (simp add: compareMatches_Num[OF a b] a b simValue_def)
  with Cons show ?case by simp
qed

lemma sortMatches_sort_key:
  assumes "\<forall>m \<in> set ms. \<exists>r. similarity m = Num r"
  shows "sortMatches ms = sort_key (\<lambda>m. - simValue (similarity m)) ms"
  using assms
proof (induction ms)
  case Nil
  then show ?case by (simp add: sortMatches_def)
next
  case (Cons x ms)
  let ?f = "\<lambda>m. - simValue (similarity m)"
  from Cons have ih: "sortMatches ms = sort_key ?f ms" by simp
  have "\<forall>m \<in> set (sort_key ?f ms). \<exists>r. similarity m = Num r"
    using Cons.prems by simp
  with Cons.prems have "insertMatch x (sort_key ?f ms) = insort_key ?f x (sort_key ?f ms)"
    by (intro insertMatch_insort_key) simp_all
  moreover have "sortMatches (x # ms) = insertMatch x (sortMatches ms)"
    by (simp add: sortMatches_def)
  ultimately show ?case using ih by (simp add: sort_key_def)
qed

lemma insort_key_map:
  "insort_key f (g x) (map g ys) = map g (insort_key (\<lambda>y. f (g y)) x ys)"
  by (induction ys) simp_all

lemma sort_key_map:
  "sort_key f (map g xs) = map g (sort_key (\<lambda>y. f (g y)) xs)"
  by (induction xs) (simp_all add: insort_key_map)

lemma findMatches_eq:
  "findMatches input_text dictionary sf =
     Inr (if trim input_text = [] then []
          else sort_key (\<lambda>t. - assigned (normalizeText input_text) sf t)
                 (filter (included (normalizeText input_text) sf) dictionary))"
proof (cases "trim input_text = []")
  case True
  then show ?thesis by (simp add: findMatches_def)
next
  case False
  let ?ni = "normalizeText input_text"
  let ?mk = "\<lambda>t. \<lparr>translation = t, similarity = Num (assigned ?ni sf t)\<rparr>"
  let ?ms = "map ?mk (filter (included ?ni sf) dictionary)"
  have c: "collectMatches ?ni sf dictionary [] = Inr ?ms"
    by (simp add: collectMatches_eq)
  have "\<forall>m \<in> set ?ms. \<exists>r. similarity m = Num r" by auto
  then have "sortMatches ?ms = sort_key (\<lambda>m. - simValue (similarity m)) ?ms"
    by (rule sortMatches_sort_key)
  also have "\<dots> = map ?mk (sort_key (\<lambda>t. - assigned ?ni sf t) (filter (included ?ni sf) dictionary))"
    by (simp add: sort_key_map simValue_def)
  finally have "map translation (sortMatches ?ms)
      = sort_key (\<lambda>t. - assigned ?ni sf t) (filter (included ?ni sf) dictionary)"
    by (simp add: comp_def)
  with False c show ?thesis by (simp add: findMatches_def andThen_def)
qed

lemma assigned_iff:
  "(calculateMatchSimilarity ni (getField sf t) = Inr (Num k)) = (assigned ni sf t = k)"
  by (simp add: calculateMatchSimilarity_assigned)

lemma findMatches_subset:
  "findMatches input_text dictionary sf = Inr ms \<Longrightarrow> set ms \<subseteq> set dictionary"
  by (auto simp: findMatches_eq split: if_splits)

lemma findMatches_member:
  "findMatches input_text dictionary sf = Inr ms \<Longrightarrow> t \<in> set ms \<Longrightarrow>
   included (normalizeText input_text) sf t"
  by (auto simp: findMatches_eq split: if_splits)

lemma findMatches_sorted:
  "findMatches input_text dictionary sf = Inr ms \<Longrightarrow>
   sorted_wrt (\<lambda>a b. assigned (normalizeText input_text) sf b \<le> assigned (normalizeText input_text) sf a) ms"
proof -
  assume a: "findMatches input_text dictionary sf = Inr ms"
  let ?f = "\<lambda>t. - assigned (normalizeText input_text) sf t"
  show ?thesis
  proof (cases "trim input_text = []")
    case True
    with a show ?thesis by (simp add: findMatches_eq)
  next
    case False
    with a have ms: "ms = sort_key ?f (filter (included (normalizeText input_text) sf) dictionary)"
      by (simp add: findMatches_eq)
    have "sorted (map ?f ms)" unfolding ms by (rule sorted_sort_key)
    then have "sorted_wrt (\<lambda>a b. ?f a \<le> ?f b) ms" by (simp only: sorted_map)
    then show ?thesis by simp
  qed
qed

lemma findMatches_stable:
  assumes "findMatches input_text dictionary sf = Inr ms"
  shows "filter (\<lambda>t. assigned (normalizeText input_text) sf t = k) ms
       = filter (\<lambda>t. assigned (normalizeText input_text) sf t = k \<and> t \<in> set ms) dictionary"
proof (cases "trim input_text = []")
  case True
  with assms show ?thesis by (simp add: findMatches_eq)
next
  case False
  let ?ni = "normalizeText input_text"
  let ?f = "\<lambda>t. - assigned ?ni sf t"
  from False assms have ms: "ms = sort_key ?f (filter (included ?ni sf) dictionary)"
    by (simp add: findMatches_eq)
  have "filter (\<lambda>t. assigned ?ni sf t = k) ms = filter (\<lambda>t. ?f t = - k) ms"
    by (rule filter_cong) auto
  also have "\<dots> = filter (\<lambda>t. ?f t = - k) (filter (included ?ni sf) dictionary)"
    unfolding ms by (rule sort_key_stable)
  also have "\<dots> = filter (\<lambda>t. included ?ni sf t \<and> ?f t = - k) dictionary"
    by (simp only: filter_filter)
  also have "\<dots> = filter (\<lambda>t. assigned ?ni sf t = k \<and> t \<in> set ms) dictionary"
    by (rule filter_cong) (auto simp: ms)
  finally show ?thesis .
qed

lemma includesStr_empty: "includesStr s []"
  by (auto simp: includesStr_def list_ex_iff simp del: upt_Suc)

lemma assigned_empty_input:
  "9 / 10 \<le> assigned [] sf t"
proof -
  let ?ns = "normalizeText (getField sf t)"
  have n: "normalizeText [] = []" by (simp add: normalizeText_def toLowerCase_def trim_def removePunctuation_def)
  have "containsText [] ?ns" by (simp add: containsText_def Let_def n includesStr_empty)
  then have "calculateMatchSimilarity [] (getField sf t) = Inr (Num 1)
           \<or> calculateMatchSimilarity [] (getField sf t) = Inr (Num (9 / 10))"
    by (simp add: calculateMatchSimilarity_def Let_def)
  then show ?thesis by (auto simp: assigned_def simValue_def)
qed

lemma findMatches_empty_normalized:
  assumes "trim input_text \<noteq> []" and "normalizeText input_text = []"
  shows "\<exists>ms. findMatches input_text dictionary sf = Inr ms \<and>
              mset ms = mset (filter (\<lambda>t. getField sf t \<noteq> []) dictionary)"
proof -
  have "(3::rat) / 5 < 9 / 10" by simp
  then have "\<And>t. 3 / 5 < assigned [] sf t"
    using assigned_empty_input[of sf] by (meson less_le_trans)
  then have "included [] sf = (\<lambda>t. getField sf t \<noteq> [])"
    by (auto simp: included_def fun_eq_iff)
  with assms show ?thesis by (simp add: findMatches_eq)
qed

section \<open>The processor and the service: the shape of a result\<close>

lemma processTranslation_empty:
  "isEmptyText input_text \<Longrightarrow>
   processTranslation input_text matches srcLang tgtLang = Inr (createEmptyResult input_text)"
  by (simp add: processTranslation_def)

lemma processTranslation_unknown:
  "\<not> isEmptyText input_text \<Longrightarrow>
   processTranslation input_text [] srcLang tgtLang = Inr (createUnknownResult input_text)"
  by (simp add: processTranslation_def)

lemma processTranslation_best:
  assumes "\<not> isEmptyText input_text"
  shows "\<exists>c. calculateSimilarity (normalizeText input_text)
               (normalizeText (getField (if code srcLang = ''en'' then English else Klingon) best))
               = Inr (Num c) \<and> 0 \<le> c \<and> c \<le> 1 \<and>
             processTranslation input_text (best # rest) srcLang tgtLang =
               Inr \<lparr>input = input_text,
                    output' = getField (if code srcLang = ''en'' then Klingon else English) best,
                    phoneticGuide = (if code srcLang = ''en'' then phonetic best else None),
                    confidence = Num c,
                    suggestions = take 3 rest\<rparr>"
proof -
  let ?src = "if code srcLang = ''en'' then English else Klingon"
  obtain c where c: "calculateSimilarity (normalizeText input_text) (normalizeText (getField ?src best))
                       = Inr (Num c)" and r: "0 \<le> c" "c \<le> 1"
    using calculateSimilarity_range by blast
  have "processTranslation input_text (best # rest) srcLang tgtLang =
               Inr \<lparr>input = input_text,
                    output' = getField (if code srcLang = ''en'' then Klingon else English) best,
                    phoneticGuide = (if code srcLang = ''en'' then phonetic best else None),
                    confidence = Num c,
                    suggestions = take 3 rest\<rparr>"
    using assms c by (simp add: processTranslation_def Let_def andThen_def slice_def)
  with c r show ?thesis by blast
qed

lemma isLanguageSupported_iff: "isLanguageSupported c = (c = ''en'' \<or> c = ''tlh'')"
  by (auto simp: isLanguageSupported_def languageOptions_def)

lemma translateText_shape:
  "\<exists>r c. translateText dictionary options = Inr r \<and> input r = text' options \<and>
         confidence r = Num c \<and> 0 \<le> c \<and> c \<le> 1 \<and> length (suggestions r) \<le> 3 \<and>
         (output' r = [] \<and> c = 0 \<and> suggestions r = []
          \<or> output' r = ''['' @ text' options @ '']'' \<and> c = 0 \<and> suggestions r = []
          \<or> output' r \<in> klingon ` set dictionary)"
proof -
  let ?t = "text' options" and ?from = "fromLanguage options" and ?to = "toLanguage options"
  consider (rejected) "isEmptyText ?t \<or> \<not> isLanguageSupported ?from \<or> \<not> isLanguageSupported ?to"
    | (accepted) "\<not> isEmptyText ?t" "isLanguageSupported ?from" "isLanguageSupported ?to"
    by blast
  then show ?thesis
  proof cases
    case rejected
    then have "translateText dictionary options = Inr (createErrorResult ''x'' ?t)"
      by (auto simp: translateText_def Let_def createErrorResult_def)
    then show ?thesis by (simp add: createErrorResult_def)
  next
    case accepted
    from accepted(2) have fr: "?from = ''en'' \<or> ?from = ''tlh''"
      by (simp add: isLanguageSupported_iff)
    then have sf: "toLowerCase ?from \<noteq> ''klingon''" and fk: "?from \<noteq> ''klingon''"
      by (auto simp: toLowerCase_def toLowerChar_def)
    obtain ms where ms: "findMatches ?t dictionary English = Inr ms"
      by (simp add: findMatches_eq)
    let ?sl0 = "\<lparr>code = ''en'', name = ''English''\<rparr>"
    let ?tl0 = "\<lparr>code = (if ?to = ''klingon'' then ''tlh'' else ''en''),
                name = (if ?to = ''klingon'' then ''Klingon'' else ''English'')\<rparr>"
    have tt: "translateText dictionary options = processTranslation ?t ms ?sl0 ?tl0"
      using accepted sf fk ms by (simp add: translateText_def Let_def andThen_def)
    show ?thesis
    proof (cases ms)
      case Nil
      with tt accepted(1) have "translateText dictionary options = Inr (createUnknownResult ?t)"
        by (simp add: processTranslation_unknown)
      then show ?thesis by (simp add: createUnknownResult_def)
    next
      case (Cons best rest)
      from processTranslation_best[OF accepted(1), of ?sl0 best rest ?tl0]
      obtain c where c: "0 \<le> c" "c \<le> 1"
        and p: "processTranslation ?t (best # rest) ?sl0 ?tl0 =
                  Inr \<lparr>input = ?t, output' = klingon best, phoneticGuide = phonetic best,
                       confidence = Num c, suggestions = take 3 rest\<rparr>"
        by auto
      from Cons ms have "best \<in> set dictionary"
        using findMatches_subset[OF ms] by auto
      then have "klingon best \<in> klingon ` set dictionary" by (rule imageI)
      with tt Cons p c show ?thesis by simp
    qed
  qed
qed

section \<open>Claims\<close>

subsection \<open>C1: the exact-match scenario\<close>

text \<open>
  C1. With a dictionary holding the entry \<open>hello\<close> / \<open>nuqneH\<close>, translating
  \<open>Hello!\<close> from \<open>english\<close> to \<open>klingon\<close> should give \<open>nuqneH\<close> with confidence
  \<open>1\<close>. The code does not: \<open>isLanguageSupported\<close> compares with the codes \<open>en\<close> and
  \<open>tlh\<close>, so the identifiers \<open>english\<close> and \<open>klingon\<close>, which the documentation of
  \<open>TranslationOptions\<close> prescribes and the hook \<open>useTranslation\<close> passes, are
  rejected, and the result is the error result with empty output and confidence \<open>0\<close>.
\<close>

theorem translateText_english_klingon:
  "translateText
     [\<lparr>id = ''greeting-001'', english = ''hello'', klingon = ''nuqneH'',
       phonetic = Some ''NOOK-neh'', category = Some ''greetings''\<rparr>]
     \<lparr>text' = ''Hello!'', fromLanguage = ''english'', toLanguage = ''klingon''\<rparr>
   = Inr \<lparr>input = ''Hello!'', output' = [], phoneticGuide = None, confidence = Num 0,
          suggestions = []\<rparr>"
  by code_simp

theorem translateText_english_klingon_witness:
  "\<exists>r. translateText
          [\<lparr>id = ''greeting-001'', english = ''hello'', klingon = ''nuqneH'',
            phonetic = Some ''NOOK-neh'', category = Some ''greetings''\<rparr>]
          \<lparr>text' = ''Hello!'', fromLanguage = ''english'', toLanguage = ''klingon''\<rparr> = Inr r \<and>
       output' r = [] \<and> confidence r = Num 0"
  using translateText_english_klingon by simp

text \<open>With the codes \<open>en\<close> and \<open>tlh\<close> the same request gives the expected result.\<close>

lemma translateText_en_tlh:
  "translateText
     [\<lparr>id = ''greeting-001'', english = ''hello'', klingon = ''nuqneH'',
       phonetic = Some ''NOOK-neh'', category = Some ''greetings''\<rparr>]
     \<lparr>text' = ''Hello!'', fromLanguage = ''en'', toLanguage = ''tlh''\<rparr>
   = Inr \<lparr>input = ''Hello!'', output' = ''nuqneH'', phoneticGuide = Some ''NOOK-neh'',
          confidence = Num 1, suggestions = []\<rparr>"
  by code_simp

subsection \<open>C2: the invariant of a result\<close>

text \<open>
  C2, as stated: every result of \<open>translateText\<close>, for any dictionary, has empty output
  only with confidence \<open>0\<close>, and the bracketed input as output only with confidence
  \<open>0\<close> and no suggestions. It fails for a dictionary whose best entry has an empty
  \<open>klingon\<close> field, or has the bracketed input as its \<open>klingon\<close> field: the output is
  that field and the confidence is the similarity to the entry's \<open>english\<close> field.
\<close>

theorem translateText_invariant_counterexample:
  "translateText [entry ''1'' ''hello'' []] (request ''hello'' ''en'' ''tlh'')
     = Inr \<lparr>input = ''hello'', output' = [], phoneticGuide = None, confidence = Num 1,
            suggestions = []\<rparr> \<and>
   translateText [entry ''1'' ''hello'' ''[hello]''] (request ''hello'' ''en'' ''tlh'')
     = Inr \<lparr>input = ''hello'', output' = ''['' @ ''hello'' @ '']'', phoneticGuide = None,
            confidence = Num 1, suggestions = []\<rparr>"
proof -
  have "translateText [entry ''1'' ''hello'' []] (request ''hello'' ''en'' ''tlh'')
     = Inr \<lparr>input = ''hello'', output' = [], phoneticGuide = None, confidence = Num 1,
            suggestions = []\<rparr>"
    by code_simp
  moreover have "translateText [entry ''1'' ''hello'' ''[hello]''] (request ''hello'' ''en'' ''tlh'')
     = Inr \<lparr>input = ''hello'', output' = ''['' @ ''hello'' @ '']'', phoneticGuide = None,
            confidence = Num 1, suggestions = []\<rparr>"
    by code_simp
  ultimately show ?thesis by (intro conjI)
qed

text \<open>
  C2, amended: every result of \<open>translateText\<close> has a confidence between \<open>0\<close> and
  \<open>1\<close> and at most three suggestions; if the output is empty and no dictionary entry
  has an empty \<open>klingon\<close> field, the confidence is \<open>0\<close>; if the output is the input in
  brackets and no dictionary entry has that string as its \<open>klingon\<close> field, the
  confidence is \<open>0\<close> and there are no suggestions.
\<close>

theorem translateText_invariant:
  "\<exists>r c. translateText dictionary options = Inr r \<and> confidence r = Num c \<and>
         0 \<le> c \<and> c \<le> 1 \<and> length (suggestions r) \<le> 3 \<and>
         (output' r = [] \<and> [] \<notin> klingon ` set dictionary \<longrightarrow> c = 0) \<and>
         (output' r = ''['' @ text' options @ '']'' \<and>
          ''['' @ text' options @ '']'' \<notin> klingon ` set dictionary \<longrightarrow> c = 0 \<and> suggestions r = [])"
proof -
  obtain r c where "translateText dictionary options = Inr r" and "confidence r = Num c"
    and "0 \<le> c" and "c \<le> 1" and "length (suggestions r) \<le> 3"
    and "output' r = [] \<and> c = 0 \<and> suggestions r = []
          \<or> output' r = ''['' @ text' options @ '']'' \<and> c = 0 \<and> suggestions r = []
          \<or> output' r \<in> klingon ` set dictionary"
    using translateText_shape[of dictionary options] by blast
  then show ?thesis by (intro exI[of _ r] exI[of _ c]) auto
qed

theorem translateText_invariant_witness:
  "[] \<notin> klingon ` set [entry ''1'' ''hello'' ''nuqneH''] \<and>
   ''[xyzzy123]'' \<notin> klingon ` set [entry ''1'' ''hello'' ''nuqneH''] \<and>
   (\<exists>r. translateText [entry ''1'' ''hello'' ''nuqneH''] (request ''   '' ''en'' ''tlh'') = Inr r \<and>
        output' r = [] \<and> confidence r = Num 0) \<and>
   (\<exists>r. translateText [entry ''1'' ''hello'' ''nuqneH''] (request ''xyzzy123'' ''en'' ''tlh'') = Inr r \<and>
        output' r = ''[xyzzy123]'' \<and> confidence r = Num 0 \<and> suggestions r = [])"
proof -
  let ?d = "[entry ''1'' ''hello'' ''nuqneH'']"
  have k1: "[] \<notin> klingon ` set ?d" by simp
  have k2: "''[xyzzy123]'' \<notin> klingon ` set ?d" by simp
  have v1: "translateText ?d (request ''   '' ''en'' ''tlh'')
     = Inr \<lparr>input = ''   '', output' = [], phoneticGuide = None, confidence = Num 0,
            suggestions = []\<rparr>"
    by code_simp
  have v2: "translateText ?d (request ''xyzzy123'' ''en'' ''tlh'')
     = Inr \<lparr>input = ''xyzzy123'', output' = ''[xyzzy123]'', phoneticGuide = None, confidence = Num 0,
            suggestions = []\<rparr>"
    by code_simp
  obtain r1 c1 where r1: "translateText ?d (request ''   '' ''en'' ''tlh'') = Inr r1"
    and c1: "confidence r1 = Num c1"
    and i1: "output' r1 = [] \<and> [] \<notin> klingon ` set ?d \<longrightarrow> c1 = 0"
    using translateText_invariant[of ?d "request ''   '' ''en'' ''tlh''"] by blast
  from r1 v1 have o1: "output' r1 = []" by auto
  with i1 k1 have "c1 = 0" by blast
  with r1 c1 o1 have a: "\<exists>r. translateText ?d (request ''   '' ''en'' ''tlh'') = Inr r \<and>
        output' r = [] \<and> confidence r = Num 0" by blast
  obtain r2 c2 where r2: "translateText ?d (request ''xyzzy123'' ''en'' ''tlh'') = Inr r2"
    and c2: "confidence r2 = Num c2"
    and i2: "output' r2 = ''['' @ text' (request ''xyzzy123'' ''en'' ''tlh'') @ '']'' \<and>
          ''['' @ text' (request ''xyzzy123'' ''en'' ''tlh'') @ '']'' \<notin> klingon ` set ?d
          \<longrightarrow> c2 = 0 \<and> suggestions r2 = []"
    using translateText_invariant[of ?d "request ''xyzzy123'' ''en'' ''tlh''"] by blast
  from r2 v2 have o2: "output' r2 = ''[xyzzy123]''" by auto
  with i2 k2 have "c2 = 0 \<and> suggestions r2 = []" by simp
  with r2 c2 o2 have b: "\<exists>r. translateText ?d (request ''xyzzy123'' ''en'' ''tlh'') = Inr r \<and>
        output' r = ''[xyzzy123]'' \<and> confidence r = Num 0 \<and> suggestions r = []" by blast
  from k1 k2 a b show ?thesis by (intro conjI)
qed

subsection \<open>C3: normalizing twice\<close>

text \<open>
  C3, as stated: \<open>normalizeText (normalizeText s) = normalizeText s\<close> for every \<open>s\<close>.
  It fails at \<open>a .\<close>: trimming comes before the punctuation is removed, so the first
  pass leaves \<open>a\<close> followed by a space, which the second pass trims.
\<close>

theorem normalizeText_not_idempotent:
  "normalizeText (normalizeText ''a .'') \<noteq> normalizeText ''a .''"
  by code_simp

text \<open>
  C3, amended: a second normalization only trims the result of the first, so
  normalization is idempotent exactly on the strings whose normalized form has no space
  at either end; this is so for every string free of the punctuation characters
  \<open>. , ! ? ; :\<close>.
\<close>

theorem normalizeText_second_pass:
  "normalizeText (normalizeText s) = trim (normalizeText s) \<and>
   ((\<forall>c \<in> set s. \<not> isPunctuation c) \<longrightarrow> normalizeText (normalizeText s) = normalizeText s)"
  using normalizeText_twice[of s] normalizeText_trimmed[of s] by simp

theorem normalizeText_second_pass_witness:
  "filter isPunctuation ''  Hello   World '' = [] \<and>
   normalizeText (normalizeText ''  Hello   World '') = normalizeText ''  Hello   World '' \<and>
   normalizeText ''  Hello   World '' = ''hello world''"
proof -
  let ?s = "''  Hello   World ''"
  have f: "filter isPunctuation ?s = []"
    by (simp add: isPunctuation_def)
  then have h: "\<forall>c \<in> set ?s. \<not> isPunctuation c"
    by (simp only: filter_empty_conv)
  have v: "normalizeText ?s = ''hello world''" by code_simp
  have "(\<forall>c \<in> set ?s. \<not> isPunctuation c) \<longrightarrow> normalizeText (normalizeText ?s) = normalizeText ?s"
    using normalizeText_second_pass[of ?s] by (rule conjunct2)
  then have "normalizeText (normalizeText ?s) = normalizeText ?s" using h by (rule mp)
  with f v show ?thesis by (intro conjI)
qed

subsection \<open>C4: the most similar candidate\<close>

text \<open>
  C4. \<open>findMostSimilar\<close> should return \<open>null\<close> only for an empty candidate list. The
  loop starts from \<open>maxSimilarity = 0\<close> and replaces the candidate only on a strictly
  greater similarity, so a candidate list whose similarities are all \<open>0\<close> gives
  \<open>null\<close> although it is not empty.
\<close>

theorem findMostSimilar_no_overlap:
  "findMostSimilar ''abc'' [''xyz''] = Inr None"
  by code_simp

subsection \<open>C5: no exception\<close>

text \<open>
  C5. \<open>translateText\<close> returns a result for every text, every pair of language
  identifiers and every dictionary, and never throws: the result carries the input, a
  confidence that is a number between \<open>0\<close> and \<open>1\<close>, at most three suggestions, and
  an output that is empty, the input in brackets, or the \<open>klingon\<close> field of a
  dictionary entry.
\<close>

theorem translateText_total:
  "\<exists>r. translateText dictionary options = Inr r \<and> input r = text' options \<and>
       (\<exists>c. confidence r = Num c \<and> 0 \<le> c \<and> c \<le> 1) \<and> length (suggestions r) \<le> 3 \<and>
       (output' r = [] \<or> output' r = ''['' @ text' options @ '']''
        \<or> output' r \<in> klingon ` set dictionary)"
  using translateText_shape[of dictionary options] by blast

theorem translateText_total_witness:
  "translateText [entry ''1'' ''hello'' ''nuqneH''] (request ''hello'' ''english'' ''vulcan'')
     = Inr \<lparr>input = ''hello'', output' = [], phoneticGuide = None, confidence = Num 0,
            suggestions = []\<rparr> \<and>
   (\<exists>r. translateText [entry ''1'' ''hello'' ''nuqneH''] (request ''xyzzy123'' ''en'' ''tlh'') = Inr r
        \<and> output' r = ''[xyzzy123]'')"
proof -
  let ?d = "[entry ''1'' ''hello'' ''nuqneH'']"
  have v: "translateText ?d (request ''hello'' ''english'' ''vulcan'')
     = Inr \<lparr>input = ''hello'', output' = [], phoneticGuide = None, confidence = Num 0,
            suggestions = []\<rparr>"
    by code_simp
  have w: "translateText ?d (request ''xyzzy123'' ''en'' ''tlh'')
     = Inr \<lparr>input = ''xyzzy123'', output' = ''[xyzzy123]'', phoneticGuide = None, confidence = Num 0,
            suggestions = []\<rparr>"
    by code_simp
  obtain r where r: "translateText ?d (request ''xyzzy123'' ''en'' ''tlh'') = Inr r"
    using translateText_total[of ?d "request ''xyzzy123'' ''en'' ''tlh''"] by blast
  with w have "output' r = ''[xyzzy123]''" by auto
  with r have "\<exists>r. translateText ?d (request ''xyzzy123'' ''en'' ''tlh'') = Inr r
        \<and> output' r = ''[xyzzy123]''" by blast
  with v show ?thesis by (intro conjI)
qed

subsection \<open>C6: the confidence is recomputed\<close>

text \<open>
  C6. For a non-empty input and a non-empty match list, \<open>processTranslation\<close> returns
  a result whose confidence is \<open>calculateSimilarity\<close> of the normalized input and the
  normalized source-language field of the first match, whatever tier selected it.
\<close>

theorem processTranslation_confidence:
  assumes "\<not> isEmptyText input_text" and "matches \<noteq> []"
  shows "\<exists>r. processTranslation input_text matches sourceLanguage targetLanguage = Inr r \<and>
             calculateSimilarity (normalizeText input_text)
               (normalizeText (getField (if code sourceLanguage = ''en'' then English else Klingon)
                                 (hd matches)))
             = Inr (confidence r)"
proof -
  from assms(2) obtain best rest where m: "matches = best # rest" by (cases matches) auto
  from processTranslation_best[OF assms(1), of sourceLanguage best rest targetLanguage]
  show ?thesis unfolding m by auto
qed

text \<open>
  The entry \<open>hello\<close> is selected for \<open>hello world\<close> by the partial tier, with
  similarity \<open>9 / 10\<close>; the confidence reported is \<open>5 / 11\<close>.
\<close>

theorem processTranslation_confidence_witness:
  "\<not> isEmptyText ''hello world'' \<and>
   calculateMatchSimilarity (normalizeText ''hello world'') ''hello'' = Inr (Num (9 / 10)) \<and>
   (\<exists>r. processTranslation ''hello world'' [entry ''1'' ''hello'' ''nuqneH'']
           \<lparr>code = ''en'', name = ''English''\<rparr> \<lparr>code = ''tlh'', name = ''Klingon''\<rparr> = Inr r \<and>
        confidence r = Num (5 / 11))"
proof -
  let ?ms = "[entry ''1'' ''hello'' ''nuqneH'']"
  let ?sl = "\<lparr>code = ''en'', name = ''English''\<rparr>" and ?tl = "\<lparr>code = ''tlh'', name = ''Klingon''\<rparr>"
  have e: "\<not> isEmptyText ''hello world''" by code_simp
  have ne: "?ms \<noteq> []" by simp
  have t: "calculateMatchSimilarity (normalizeText ''hello world'') ''hello'' = Inr (Num (9 / 10))"
    by code_simp
  have c: "calculateSimilarity (normalizeText ''hello world'')
             (normalizeText (getField (if code ?sl = ''en'' then English else Klingon) (hd ?ms)))
           = Inr (Num (5 / 11))"
    by code_simp
  obtain r where r: "processTranslation ''hello world'' ?ms ?sl ?tl = Inr r"
    and "calculateSimilarity (normalizeText ''hello world'')
             (normalizeText (getField (if code ?sl = ''en'' then English else Klingon) (hd ?ms)))
           = Inr (confidence r)"
    using processTranslation_confidence[OF e ne, of ?sl ?tl] by blast
  with c have "confidence r = Num (5 / 11)" by (simp only: sum.inject)
  with r have "\<exists>r. processTranslation ''hello world'' ?ms ?sl ?tl = Inr r \<and> confidence r = Num (5 / 11)"
    by blast
  with e t show ?thesis by (intro conjI)
qed

subsection \<open>C7: the threshold is strict\<close>

text \<open>
  C7. Every entry \<open>findMatches\<close> returns has an assigned similarity strictly greater
  than \<open>3 / 5\<close>; an entry whose assigned similarity is exactly \<open>3 / 5\<close> is not
  returned.
\<close>

theorem findMatches_threshold:
  "\<exists>ms. findMatches input_text dictionary sf = Inr ms \<and> set ms \<subseteq> set dictionary \<and>
     (\<forall>t \<in> set ms. \<exists>r. calculateMatchSimilarity (normalizeText input_text) (getField sf t)
                            = Inr (Num r) \<and> 3 / 5 < r) \<and>
     (\<forall>t. calculateMatchSimilarity (normalizeText input_text) (getField sf t) = Inr (Num (3 / 5))
          \<longrightarrow> t \<notin> set ms)"
proof -
  obtain ms where ms: "findMatches input_text dictionary sf = Inr ms"
    by (simp add: findMatches_eq)
  have inc: "\<And>t. t \<in> set ms \<Longrightarrow> 3 / 5 < assigned (normalizeText input_text) sf t"
    using findMatches_member[OF ms] by (simp add: included_def)
  have "\<forall>t \<in> set ms. \<exists>r. calculateMatchSimilarity (normalizeText input_text) (getField sf t)
                            = Inr (Num r) \<and> 3 / 5 < r"
    using inc by (simp add: assigned_iff)
  moreover have "\<forall>t. calculateMatchSimilarity (normalizeText input_text) (getField sf t)
                       = Inr (Num (3 / 5)) \<longrightarrow> t \<notin> set ms"
  proof (intro allI impI notI)
    fix t
    assume e: "calculateMatchSimilarity (normalizeText input_text) (getField sf t) = Inr (Num (3 / 5))"
      and m: "t \<in> set ms"
    from e have "assigned (normalizeText input_text) sf t = 3 / 5"
      by (simp only: assigned_iff)
    moreover from m have "3 / 5 < assigned (normalizeText input_text) sf t" by (rule inc)
    ultimately have "(3::rat) / 5 < 3 / 5" by (simp only:)
    then show False by (simp only: less_irrefl)
  qed
  ultimately show ?thesis using ms findMatches_subset[OF ms] by blast
qed

theorem findMatches_threshold_witness:
  "calculateMatchSimilarity (normalizeText ''abcde'') (getField English (entry ''1'' ''abcxy'' ''k1''))
     = Inr (Num (3 / 5)) \<and>
   findMatches ''abcde'' [entry ''1'' ''abcxy'' ''k1'', entry ''2'' ''abcdx'' ''k2''] English
     = Inr [entry ''2'' ''abcdx'' ''k2'']"
proof -
  let ?e1 = "entry ''1'' ''abcxy'' ''k1''" and ?e2 = "entry ''2'' ''abcdx'' ''k2''"
  have s: "calculateMatchSimilarity (normalizeText ''abcde'') (getField English ?e1) = Inr (Num (3 / 5))"
    by code_simp
  have v: "findMatches ''abcde'' [?e1, ?e2] English = Inr [?e2]" by code_simp
  obtain ms where ms: "findMatches ''abcde'' [?e1, ?e2] English = Inr ms"
    and ex: "\<forall>t. calculateMatchSimilarity (normalizeText ''abcde'') (getField English t)
                   = Inr (Num (3 / 5)) \<longrightarrow> t \<notin> set ms"
    using findMatches_threshold[of "''abcde''" "[?e1, ?e2]" English] by blast
  from ex s have "?e1 \<notin> set ms" by blast
  with s v show ?thesis by (intro conjI)
qed

subsection \<open>C8: the order of the matches\<close>

text \<open>
  C8. The list \<open>findMatches\<close> returns is in descending order of assigned similarity,
  and the returned entries of one assigned similarity come in the order they have in the
  dictionary.
\<close>

theorem findMatches_sorted_stable:
  "\<exists>ms. findMatches input_text dictionary sf = Inr ms \<and>
     sorted_wrt (\<lambda>a b. \<exists>ra rb.
         calculateMatchSimilarity (normalizeText input_text) (getField sf a) = Inr (Num ra) \<and>
         calculateMatchSimilarity (normalizeText input_text) (getField sf b) = Inr (Num rb) \<and>
         rb \<le> ra) ms \<and>
     (\<forall>k. filter (\<lambda>t. calculateMatchSimilarity (normalizeText input_text) (getField sf t)
                        = Inr (Num k)) ms
        = filter (\<lambda>t. calculateMatchSimilarity (normalizeText input_text) (getField sf t)
                        = Inr (Num k) \<and> t \<in> set ms) dictionary)"
proof -
  let ?ni = "normalizeText input_text"
  obtain ms where ms: "findMatches input_text dictionary sf = Inr ms"
    by (simp add: findMatches_eq)
  have "sorted_wrt (\<lambda>a b. assigned ?ni sf b \<le> assigned ?ni sf a) ms"
    using ms by (rule findMatches_sorted)
  then have "sorted_wrt (\<lambda>a b. \<exists>ra rb.
         calculateMatchSimilarity ?ni (getField sf a) = Inr (Num ra) \<and>
         calculateMatchSimilarity ?ni (getField sf b) = Inr (Num rb) \<and> rb \<le> ra) ms"
    by (rule sorted_wrt_mono_rel[rotated]) (simp add: assigned_iff)
  moreover have "\<forall>k. filter (\<lambda>t. calculateMatchSimilarity ?ni (getField sf t) = Inr (Num k)) ms
        = filter (\<lambda>t. calculateMatchSimilarity ?ni (getField sf t) = Inr (Num k) \<and> t \<in> set ms) dictionary"
    using findMatches_stable[OF ms] by (simp add: assigned_iff)
  ultimately show ?thesis using ms by blast
qed

theorem findMatches_sorted_stable_witness:
  "findMatches ''hello''
     [entry ''1'' ''hello there'' ''a'', entry ''2'' ''xyz'' ''b'', entry ''3'' ''Hello!'' ''c'',
      entry ''4'' ''oh hello'' ''d''] English
   = Inr [entry ''3'' ''Hello!'' ''c'', entry ''1'' ''hello there'' ''a'', entry ''4'' ''oh hello'' ''d'']
   \<and> filter (\<lambda>t. calculateMatchSimilarity (normalizeText ''hello'') (getField English t)
                    = Inr (Num (9 / 10)))
        [entry ''3'' ''Hello!'' ''c'', entry ''1'' ''hello there'' ''a'', entry ''4'' ''oh hello'' ''d'']
     = [entry ''1'' ''hello there'' ''a'', entry ''4'' ''oh hello'' ''d'']"
proof -
  let ?e1 = "entry ''1'' ''hello there'' ''a''" and ?e2 = "entry ''2'' ''xyz'' ''b''"
  let ?e3 = "entry ''3'' ''Hello!'' ''c''" and ?e4 = "entry ''4'' ''oh hello'' ''d''"
  let ?score = "\<lambda>t. calculateMatchSimilarity (normalizeText ''hello'') (getField English t)"
  have v: "findMatches ''hello'' [?e1, ?e2, ?e3, ?e4] English = Inr [?e3, ?e1, ?e4]"
    by code_simp
  have s1: "?score ?e1 = Inr (Num (9 / 10))" by code_simp
  have s2: "?score ?e2 = Inr (Num 0)" by code_simp
  have s3: "?score ?e3 = Inr (Num 1)" by code_simp
  have s4: "?score ?e4 = Inr (Num (9 / 10))" by code_simp
  obtain ms where ms: "findMatches ''hello'' [?e1, ?e2, ?e3, ?e4] English = Inr ms"
    and st: "\<forall>k. filter (\<lambda>t. ?score t = Inr (Num k)) ms
               = filter (\<lambda>t. ?score t = Inr (Num k) \<and> t \<in> set ms) [?e1, ?e2, ?e3, ?e4]"
    using findMatches_sorted_stable[of "''hello''" "[?e1, ?e2, ?e3, ?e4]" English] by blast
  from ms v have m: "ms = [?e3, ?e1, ?e4]" by (simp only: sum.inject)
  from st have "filter (\<lambda>t. ?score t = Inr (Num (9 / 10))) ms
               = filter (\<lambda>t. ?score t = Inr (Num (9 / 10)) \<and> t \<in> set ms) [?e1, ?e2, ?e3, ?e4]"
    by (rule spec)
  also have "\<dots> = [?e1, ?e4]"
    unfolding m by (simp only: filter.simps s1 s2 s3 s4) simp
  finally have "filter (\<lambda>t. ?score t = Inr (Num (9 / 10))) [?e3, ?e1, ?e4] = [?e1, ?e4]"
    unfolding m .
  with v show ?thesis by (intro conjI)
qed

subsection \<open>C9: the range of the similarity\<close>

text \<open>
  C9. For all strings \<open>a\<close> and \<open>b\<close>, \<open>calculateSimilarity a b\<close> returns a number in the
  closed interval from \<open>0\<close> to \<open>1\<close> (it neither throws nor gives \<open>NaN\<close>); the distance
  in the last cell of the matrix is at most the longer length, and for non-empty strings
  the similarity is one minus the distance over that length.
\<close>

theorem calculateSimilarity_unit_interval:
  "\<exists>r. calculateSimilarity a b = Inr (Num r) \<and> 0 \<le> r \<and> r \<le> 1 \<and>
       levCell a b (length b) (length a) \<le> max (length a) (length b) \<and>
       (a \<noteq> [] \<and> b \<noteq> [] \<longrightarrow>
          r = 1 - of_nat (levCell a b (length b) (length a)) / of_nat (max (length a) (length b)))"
proof -
  obtain r where r: "calculateSimilarity a b = Inr (Num r)" "0 \<le> r" "r \<le> 1"
    using calculateSimilarity_range[of a b] by blast
  have "levCell a b (length b) (length a) \<le> max (length a) (length b)"
    using levCell_bound[of a b "length b" "length a"] by (simp add: max.commute)
  moreover have "a \<noteq> [] \<and> b \<noteq> [] \<longrightarrow>
          r = 1 - of_nat (levCell a b (length b) (length a)) / of_nat (max (length a) (length b))"
    using r(1) by (auto simp: calculateSimilarity_value)
  ultimately show ?thesis using r by blast
qed

theorem calculateSimilarity_unit_interval_witness:
  "''helo'' \<noteq> [] \<and> ''hello'' \<noteq> [] \<and> calculateSimilarity ''helo'' ''hello'' = Inr (Num (4 / 5))"
proof -
  let ?a = "''helo''" and ?b = "''hello''"
  have ne1: "?a \<noteq> []" and ne2: "?b \<noteq> []" by simp_all
  then have ne: "?a \<noteq> [] \<and> ?b \<noteq> []" by (intro conjI)
  have d: "levCell ?a ?b (length ?b) (length ?a) = 1" by code_simp
  have m: "max (length ?a) (length ?b) = 5" by simp
  obtain r where r: "calculateSimilarity ?a ?b = Inr (Num r) \<and> 0 \<le> r \<and> r \<le> 1 \<and>
       levCell ?a ?b (length ?b) (length ?a) \<le> max (length ?a) (length ?b) \<and>
       (?a \<noteq> [] \<and> ?b \<noteq> [] \<longrightarrow>
          r = 1 - of_nat (levCell ?a ?b (length ?b) (length ?a)) / of_nat (max (length ?a) (length ?b)))"
    using calculateSimilarity_unit_interval[of ?a ?b] ..
  then have "?a \<noteq> [] \<and> ?b \<noteq> [] \<longrightarrow>
          r = 1 - of_nat (levCell ?a ?b (length ?b) (length ?a)) / of_nat (max (length ?a) (length ?b))"
    by (intro conjunct2[OF conjunct2[OF conjunct2[OF conjunct2[OF r]]]])
  then have "r = 1 - of_nat (levCell ?a ?b (length ?b) (length ?a)) / of_nat (max (length ?a) (length ?b))"
    using ne by (rule mp)
  then have "r = 4 / 5" by (simp only: d m)
  moreover from r have "calculateSimilarity ?a ?b = Inr (Num r)" by (rule conjunct1)
  ultimately have "calculateSimilarity ?a ?b = Inr (Num (4 / 5))" by (simp only:)
  with ne1 ne2 show ?thesis by (intro conjI)
qed

subsection \<open>C10: an input of punctuation only\<close>

text \<open>
  C10. For an input that is not blank but normalizes to the empty string,
  \<open>findMatches\<close> returns exactly the entries whose searched field is not empty, each
  with an assigned similarity of at least \<open>9 / 10\<close>.
\<close>

theorem findMatches_punctuation_only:
  assumes "trim input_text \<noteq> []" and "normalizeText input_text = []"
  shows "\<exists>ms. findMatches input_text dictionary sf = Inr ms \<and>
           mset ms = mset (filter (\<lambda>t. getField sf t \<noteq> []) dictionary) \<and>
           (\<forall>t \<in> set dictionary. getField sf t \<noteq> [] \<longrightarrow>
              (\<exists>r. calculateMatchSimilarity (normalizeText input_text) (getField sf t) = Inr (Num r)
                   \<and> 9 / 10 \<le> r))"
proof -
  have "\<forall>t \<in> set dictionary. getField sf t \<noteq> [] \<longrightarrow>
              (\<exists>r. calculateMatchSimilarity (normalizeText input_text) (getField sf t) = Inr (Num r)
                   \<and> 9 / 10 \<le> r)"
    using assigned_empty_input[of sf] by (simp add: assms(2) assigned_iff)
  with findMatches_empty_normalized[OF assms, of dictionary sf] show ?thesis by blast
qed

theorem findMatches_punctuation_only_witness:
  "trim ''...'' \<noteq> [] \<and> normalizeText ''...'' = [] \<and>
   findMatches ''...'' [entry ''1'' ''hello'' ''nuqneH'', entry ''2'' [] ''Qapla'', entry ''3'' ''!'' ''x'']
     English = Inr [entry ''3'' ''!'' ''x'', entry ''1'' ''hello'' ''nuqneH'']"
proof -
  let ?d = "[entry ''1'' ''hello'' ''nuqneH'', entry ''2'' [] ''Qapla'', entry ''3'' ''!'' ''x'']"
  have t: "trim ''...'' \<noteq> []" by code_simp
  have n: "normalizeText ''...'' = []" by code_simp
  have v: "findMatches ''...'' ?d English = Inr [entry ''3'' ''!'' ''x'', entry ''1'' ''hello'' ''nuqneH'']"
    by code_simp
  obtain ms where "findMatches ''...'' ?d English = Inr ms"
    and "mset ms = mset (filter (\<lambda>t. getField English t \<noteq> []) ?d)"
    using findMatches_punctuation_only[OF t n, of ?d English] by blast
  with t n v show ?thesis by (intro conjI)
qed

end
